theory Spec2Isabelle
  imports Main "HOL-Library.Word"
begin

unbundle bit_operations_syntax

section \<open>Library functions used by \<open>create_request.py\<close>\<close>

subsection \<open>\<open>hashlib.sha256\<close>: SHA-256 over a byte string (FIPS 180-4)\<close>

type_synonym byte = "8 word"
type_synonym u32 = "32 word"

definition rotr :: "nat \<Rightarrow> u32 \<Rightarrow> u32" where
  "rotr n x = (drop_bit n x) OR (push_bit (32 - n) x)"

definition Ch :: "u32 \<Rightarrow> u32 \<Rightarrow> u32 \<Rightarrow> u32" where
  "Ch x y z = (x AND y) XOR (NOT x AND z)"

definition Maj :: "u32 \<Rightarrow> u32 \<Rightarrow> u32 \<Rightarrow> u32" where
  "Maj x y z = (x AND y) XOR (x AND z) XOR (y AND z)"

definition Sigma0 :: "u32 \<Rightarrow> u32" where
  "Sigma0 x = rotr 2 x XOR rotr 13 x XOR rotr 22 x"

definition Sigma1 :: "u32 \<Rightarrow> u32" where
  "Sigma1 x = rotr 6 x XOR rotr 11 x XOR rotr 25 x"

definition sigma0 :: "u32 \<Rightarrow> u32" where
  "sigma0 x = rotr 7 x XOR rotr 18 x XOR drop_bit 3 x"

definition sigma1 :: "u32 \<Rightarrow> u32" where
  "sigma1 x = rotr 17 x XOR rotr 19 x XOR drop_bit 10 x"

text \<open>
  The 64 round constants (the first 32 bits of the fractional parts of the cube roots of
  the first 64 primes), in decimal.
\<close>

definition K256 :: "u32 list" where
  "K256 = [
    1116352408, 1899447441, 3049323471, 3921009573,
    961987163, 1508970993, 2453635748, 2870763221,
    3624381080, 310598401, 607225278, 1426881987,
    1925078388, 2162078206, 2614888103, 3248222580,
    3835390401, 4022224774, 264347078, 604807628,
    770255983, 1249150122, 1555081692, 1996064986,
    2554220882, 2821834349, 2952996808, 3210313671,
    3336571891, 3584528711, 113926993, 338241895,
    666307205, 773529912, 1294757372, 1396182291,
    1695183700, 1986661051, 2177026350, 2456956037,
    2730485921, 2820302411, 3259730800, 3345764771,
    3516065817, 3600352804, 4094571909, 275423344,
    430227734, 506948616, 659060556, 883997877,
    958139571, 1322822218, 1537002063, 1747873779,
    1955562222, 2024104815, 2227730452, 2361852424,
    2428436474, 2756734187, 3204031479, 3329325298]"

type_synonym hash_state = "u32 \<times> u32 \<times> u32 \<times> u32 \<times> u32 \<times> u32 \<times> u32 \<times> u32"

definition H256 :: hash_state where
  "H256 = (0x6a09e667, 0xbb67ae85, 0x3c6ef372, 0xa54ff53a,
           0x510e527f, 0x9b05688c, 0x1f83d9ab, 0x5be0cd19)"

fun sha_round :: "hash_state \<Rightarrow> u32 \<times> u32 \<Rightarrow> hash_state" where
  "sha_round (a, b, c, d, e, f, g, h) (k, w) =
     (let t1 = h + Sigma1 e + Ch e f g + k + w;
          t2 = Sigma0 a + Maj a b c
      in (t1 + t2, a, b, c, d + t1, e, f, g))"

fun schedule :: "nat \<Rightarrow> u32 list \<Rightarrow> u32 list" where
  "schedule 0 w = w"
| "schedule (Suc n) w =
     schedule n (w @ [sigma1 (w ! (length w - 2)) + w ! (length w - 7)
                      + sigma0 (w ! (length w - 15)) + w ! (length w - 16)])"

fun be32 :: "byte list \<Rightarrow> u32" where
  "be32 bs = foldl (\<lambda>acc b. push_bit 8 acc OR ucast b) 0 bs"

fun block_words :: "byte list \<Rightarrow> u32 list" where
  "block_words bs = (if bs = [] then [] else be32 (take 4 bs) # block_words (drop 4 bs))"

fun add_state :: "hash_state \<Rightarrow> hash_state \<Rightarrow> hash_state" where
  "add_state (a, b, c, d, e, f, g, h) (a', b', c', d', e', f', g', h') =
     (a + a', b + b', c + c', d + d', e + e', f + f', g + g', h + h')"

definition compress :: "hash_state \<Rightarrow> byte list \<Rightarrow> hash_state" where
  "compress st block =
     add_state st (foldl sha_round st (zip K256 (schedule 48 (block_words block))))"

definition pad :: "byte list \<Rightarrow> byte list" where
  "pad msg = msg @ [0x80] @ replicate ((119 - length msg mod 64) mod 64) 0
             @ map (\<lambda>i. ucast (drop_bit (8 * i) (of_nat (8 * length msg) :: 64 word))) (rev [0..<8])"

function blocks :: "byte list \<Rightarrow> byte list list" where
  "blocks bs = (if bs = [] then [] else take 64 bs # blocks (drop 64 bs))"
  by pat_completeness auto
termination by (relation "measure length") auto

fun word_bytes :: "u32 \<Rightarrow> byte list" where
  "word_bytes w = [ucast (drop_bit 24 w), ucast (drop_bit 16 w), ucast (drop_bit 8 w), ucast w]"

fun state_bytes :: "hash_state \<Rightarrow> byte list" where
  "state_bytes (a, b, c, d, e, f, g, h) = concat (map word_bytes [a, b, c, d, e, f, g, h])"

definition sha256 :: "byte list \<Rightarrow> byte list" where
  "sha256 msg = state_bytes (foldl compress H256 (blocks (pad msg)))"

definition hexdigits :: string where
  "hexdigits = ''0123456789abcdef''"

definition hex_digit :: "nat \<Rightarrow> char" where
  "hex_digit n = hexdigits ! n"

definition byte_hex :: "byte \<Rightarrow> string" where
  "byte_hex b = [hex_digit (unat b div 16), hex_digit (unat b mod 16)]"

definition hexdigest :: "byte list \<Rightarrow> string" where
  "hexdigest bs = concat (map byte_hex bs)"



subsection \<open>\<open>base64.b64encode\<close>: the standard alphabet with padding (RFC 4648)\<close>

definition b64_table :: string where
  "b64_table = ''ABCDEFGHIJKLMNOPQRSTUVWXYZabcdefghijklmnopqrstuvwxyz0123456789+/''"

definition b64_char :: "nat \<Rightarrow> char" where
  "b64_char i = b64_table ! i"

text \<open>
  Three input bytes give four characters of six bits each; a final group of one or two
  bytes is filled with zero bits and padded with \<open>=\<close> to four characters.
\<close>

fun b64encode :: "byte list \<Rightarrow> string" where
  "b64encode [] = []"
| "b64encode [a] =
     [b64_char (unat a div 4), b64_char (unat a mod 4 * 16), CHR ''='', CHR ''='']"
| "b64encode [a, b] =
     [b64_char (unat a div 4), b64_char (unat a mod 4 * 16 + unat b div 16),
      b64_char (unat b mod 16 * 4), CHR ''='']"
| "b64encode (a # b # c # rest) =
     [b64_char (unat a div 4), b64_char (unat a mod 4 * 16 + unat b div 16),
      b64_char (unat b mod 16 * 4 + unat c div 64), b64_char (unat c mod 64)]
     @ b64encode rest"

text \<open>
  \<open>base64.b64decode\<close>, the inverse direction: every group of four characters gives
  three bytes, a final group padded with \<open>=\<close> gives one or two. A character outside
  the alphabet or a group that is not complete is an error (\<open>None\<close>).
\<close>

definition b64_value :: "char \<Rightarrow> nat option" where
  "b64_value c =
     (let n = (of_char c :: nat) in
      if 65 \<le> n \<and> n \<le> 90 then Some (n - 65)
      else if 97 \<le> n \<and> n \<le> 122 then Some (n - 71)
      else if 48 \<le> n \<and> n \<le> 57 then Some (n + 4)
      else if n = 43 then Some 62
      else if n = 47 then Some 63
      else None)"

fun b64decode :: "string \<Rightarrow> byte list option" where
  "b64decode [] = Some []"
| "b64decode (c0 # c1 # c2 # c3 # rest) =
     (if rest = [] \<and> c2 = CHR ''='' \<and> c3 = CHR ''='' then
        Option.bind (b64_value c0) (\<lambda>i0.
        Option.bind (b64_value c1) (\<lambda>i1.
        Some [of_nat (i0 * 4 + i1 div 16)]))
      else if rest = [] \<and> c3 = CHR ''='' then
        Option.bind (b64_value c0) (\<lambda>i0.
        Option.bind (b64_value c1) (\<lambda>i1.
        Option.bind (b64_value c2) (\<lambda>i2.
        Some [of_nat (i0 * 4 + i1 div 16), of_nat (i1 mod 16 * 16 + i2 div 4)])))
      else
        Option.bind (b64_value c0) (\<lambda>i0.
        Option.bind (b64_value c1) (\<lambda>i1.
        Option.bind (b64_value c2) (\<lambda>i2.
        Option.bind (b64_value c3) (\<lambda>i3.
        Option.bind (b64decode rest) (\<lambda>bs.
        Some (of_nat (i0 * 4 + i1 div 16) # of_nat (i1 mod 16 * 16 + i2 div 4)
              # of_nat (i2 mod 4 * 64 + i3) # bs)))))))"
| "b64decode _ = None"

subsection \<open>\<open>json.dumps\<close> on the values the script builds\<close>

text \<open>
  The script only builds dictionaries with string keys whose values are strings, integers
  or dictionaries. A dictionary keeps its insertion order, which is the order
  \<open>json.dumps\<close> writes, so it is an association list.
\<close>

datatype pyobj = PyStr string | PyInt int | PyDict "(string \<times> pyobj) list"

text \<open>
  \<open>json.dumps\<close> runs with its defaults: \<open>ensure_ascii=True\<close>, item separator
  \<open>", "\<close> and key separator \<open>": "\<close>. With \<open>ensure_ascii\<close> every character outside
  the printable ASCII range, the quote and the backslash are escaped.
\<close>

definition hex4 :: "nat \<Rightarrow> string" where
  "hex4 n = [hex_digit (n div 4096 mod 16), hex_digit (n div 256 mod 16),
             hex_digit (n div 16 mod 16), hex_digit (n mod 16)]"

definition escape_char :: "char \<Rightarrow> string" where
  "escape_char c =
     (if c = CHR 0x22 then [CHR 0x5C, CHR 0x22]
      else if c = CHR 0x5C then [CHR 0x5C, CHR 0x5C]
      else if c = CHR 0x0A then [CHR 0x5C, CHR ''n'']
      else if c = CHR 0x0D then [CHR 0x5C, CHR ''r'']
      else if c = CHR 0x09 then [CHR 0x5C, CHR ''t'']
      else if c = CHR 0x0C then [CHR 0x5C, CHR ''f'']
      else if c = CHR 0x08 then [CHR 0x5C, CHR ''b'']
      else if (of_char c :: nat) < 32 \<or> 126 < (of_char c :: nat)
        then [CHR 0x5C, CHR ''u''] @ hex4 (of_char c)
      else [c])"

definition encode_basestring_ascii :: "string \<Rightarrow> string" where
  "encode_basestring_ascii s = [CHR 0x22] @ concat (map escape_char s) @ [CHR 0x22]"

definition digit_char :: "nat \<Rightarrow> char" where
  "digit_char d = char_of (48 + d)"

function nat_repr :: "nat \<Rightarrow> string" where
  "nat_repr n = (if n < 10 then [digit_char n] else nat_repr (n div 10) @ [digit_char (n mod 10)])"
  by pat_completeness auto
termination
  by (relation "measure id") auto

definition int_repr :: "int \<Rightarrow> string" where
  "int_repr i = (if i < 0 then CHR ''-'' # nat_repr (nat (- i)) else nat_repr (nat i))"

fun join_items :: "string list \<Rightarrow> string" where
  "join_items [] = []"
| "join_items [x] = x"
| "join_items (x # y # ys) = x @ '', '' @ join_items (y # ys)"

fun dumps :: "pyobj \<Rightarrow> string" where
  "dumps (PyStr s) = encode_basestring_ascii s"
| "dumps (PyInt i) = int_repr i"
| "dumps (PyDict kvs) =
     ''{'' @ join_items (map (\<lambda>(k, v). encode_basestring_ascii k @ '': '' @ dumps v) kvs) @ ''}''"

subsection \<open>Reading JSON text back (RFC 8259)\<close>

text \<open>
  What it means for a text to parse as JSON, for the values above: objects with string
  keys, strings and integers, with insignificant whitespace between the tokens. A string
  may hold any character from \<open>0x20\<close> on except the quote and the backslash, and
  the escapes \<open>\" \\ \/ \b \f \n \r \t\<close> and \<open>\uXXXX\<close> (here for code points below
  256, the range of \<open>char\<close>). An integer has no leading zero. Every text this parser
  accepts is a JSON text of RFC 8259; it returns the members of an object in the order
  of the text.
\<close>

definition is_ws :: "char \<Rightarrow> bool" where
  "is_ws c \<longleftrightarrow> c = CHR '' '' \<or> c = CHR 0x09 \<or> c = CHR 0x0A \<or> c = CHR 0x0D"

definition skip_ws :: "string \<Rightarrow> string" where
  "skip_ws s = dropWhile is_ws s"

definition is_digit :: "char \<Rightarrow> bool" where
  "is_digit c \<longleftrightarrow> 48 \<le> (of_char c :: nat) \<and> (of_char c :: nat) \<le> 57"

definition digit_value :: "char \<Rightarrow> nat" where
  "digit_value c = of_char c - 48"

definition hex_value :: "char \<Rightarrow> nat option" where
  "hex_value c =
     (let n = (of_char c :: nat) in
      if 48 \<le> n \<and> n \<le> 57 then Some (n - 48)
      else if 97 \<le> n \<and> n \<le> 102 then Some (n - 87)
      else if 65 \<le> n \<and> n \<le> 70 then Some (n - 55)
      else None)"

definition unescape :: "char \<Rightarrow> char option" where
  "unescape e =
     (if e = CHR 0x22 then Some (CHR 0x22)
      else if e = CHR 0x5C then Some (CHR 0x5C)
      else if e = CHR ''/'' then Some (CHR ''/'')
      else if e = CHR ''n'' then Some (CHR 0x0A)
      else if e = CHR ''r'' then Some (CHR 0x0D)
      else if e = CHR ''t'' then Some (CHR 0x09)
      else if e = CHR ''f'' then Some (CHR 0x0C)
      else if e = CHR ''b'' then Some (CHR 0x08)
      else None)"

definition code_point :: "char \<Rightarrow> char \<Rightarrow> char \<Rightarrow> char \<Rightarrow> char option" where
  "code_point h1 h2 h3 h4 =
     Option.bind (hex_value h1) (\<lambda>d1.
     Option.bind (hex_value h2) (\<lambda>d2.
     Option.bind (hex_value h3) (\<lambda>d3.
     Option.bind (hex_value h4) (\<lambda>d4.
       if d1 = 0 \<and> d2 = 0 then Some (char_of (d3 * 16 + d4)) else None))))"

definition prepend :: "char \<Rightarrow> (string \<times> string) option \<Rightarrow> (string \<times> string) option" where
  "prepend c r = map_option (\<lambda>(s, rest). (c # s, rest)) r"

fun parse_chars :: "string \<Rightarrow> (string \<times> string) option" where
  "parse_chars [] = None"
| "parse_chars [c] = (if c = CHR 0x22 then Some ([], []) else None)"
| "parse_chars (c # e # cs) =
     (if c = CHR 0x22 then Some ([], e # cs)
      else if c = CHR 0x5C then
        (if e = CHR ''u'' then
           (case cs of
              h1 # h2 # h3 # h4 # rest \<Rightarrow>
                Option.bind (code_point h1 h2 h3 h4) (\<lambda>ch. prepend ch (parse_chars rest))
            | _ \<Rightarrow> None)
         else Option.bind (unescape e) (\<lambda>ch. prepend ch (parse_chars cs)))
      else if (of_char c :: nat) < 32 then None
      else prepend c (parse_chars (e # cs)))"

definition parse_nat :: "string \<Rightarrow> (nat \<times> string) option" where
  "parse_nat s =
     (let ds = takeWhile is_digit s; rest = dropWhile is_digit s in
      if ds = [] then None
      else if hd ds = CHR ''0'' \<and> tl ds \<noteq> [] then None
      else if rest \<noteq> [] \<and> hd rest \<in> {CHR ''.'', CHR ''e'', CHR ''E''} then None
      else Some (foldl (\<lambda>a d. 10 * a + digit_value d) 0 ds, rest))"

definition parse_int :: "string \<Rightarrow> (int \<times> string) option" where
  "parse_int s =
     (case s of
        [] \<Rightarrow> None
      | c # cs \<Rightarrow>
          if c = CHR ''-'' then map_option (\<lambda>(n, rest). (- int n, rest)) (parse_nat cs)
          else map_option (\<lambda>(n, rest). (int n, rest)) (parse_nat s))"

definition expect :: "char \<Rightarrow> string \<Rightarrow> string option" where
  "expect c s = (case skip_ws s of [] \<Rightarrow> None | d # rest \<Rightarrow> if d = c then Some rest else None)"

function parse_value :: "string \<Rightarrow> (pyobj \<times> string) option"
  and parse_members :: "string \<Rightarrow> ((string \<times> pyobj) list \<times> string) option" where
  "parse_value s =
     (case skip_ws s of
        [] \<Rightarrow> None
      | c # cs \<Rightarrow>
          if c = CHR 0x22 then map_option (\<lambda>(str, rest). (PyStr str, rest)) (parse_chars cs)
          else if c = CHR ''{'' then
            (case expect (CHR ''}'') cs of
               Some rest \<Rightarrow> Some (PyDict [], rest)
             | None \<Rightarrow>
                 if length cs < length s
                 then map_option (\<lambda>(kvs, rest). (PyDict kvs, rest)) (parse_members cs)
                 else None)
          else map_option (\<lambda>(i, rest). (PyInt i, rest)) (parse_int (c # cs)))"
| "parse_members s =
     Option.bind (expect (CHR 0x22) s) (\<lambda>s1.
     Option.bind (parse_chars s1) (\<lambda>(k, s2).
     Option.bind (expect (CHR '':'') s2) (\<lambda>s3.
     Option.bind (if length s3 < length s then parse_value s3 else None) (\<lambda>(v, s4).
       (case skip_ws s4 of
          [] \<Rightarrow> None
        | d # s5 \<Rightarrow>
            if d = CHR ''}'' then Some ([(k, v)], s5)
            else if d = CHR '','' \<and> length s5 < length s
              then map_option (\<lambda>(kvs, rest). ((k, v) # kvs, rest)) (parse_members s5)
            else None)))))"
  by pat_completeness auto
termination
  by (relation "measure (\<lambda>x. case x of Inl s \<Rightarrow> 2 * length s + 1 | Inr s \<Rightarrow> 2 * length s)") auto

definition loads :: "string \<Rightarrow> pyobj option" where
  "loads s = Option.bind (parse_value s) (\<lambda>(v, rest). if skip_ws rest = [] then Some v else None)"

declare nat_repr.simps [simp del]

definition int_end :: "string \<Rightarrow> bool" where
  "int_end rest \<longleftrightarrow>
     (case rest of [] \<Rightarrow> True
      | c # _ \<Rightarrow> \<not> is_digit c \<and> c \<noteq> CHR ''.'' \<and> c \<noteq> CHR ''e'' \<and> c \<noteq> CHR ''E'')"


declare parse_value.simps [simp del] parse_members.simps [simp del]

definition item :: "string \<times> pyobj \<Rightarrow> string" where
  "item = (\<lambda>(k, v). encode_basestring_ascii k @ '': '' @ dumps v)"


section \<open>The script \<open>create_request.py\<close>\<close>

subsection \<open>Files\<close>

text \<open>
  The script touches the outside world three times: it opens \<open>test_file.txt\<close> for
  reading, opens \<open>upload_request.json\<close> for writing and prints one line. The working
  directory maps a name to a regular file with its bytes or to a directory; a name that
  is not mapped does not exist.
\<close>

datatype node = File "byte list" | Directory

type_synonym fs = "string \<rightharpoonup> node"

datatype error = FileNotFoundError | IsADirectoryError

record world =
  files :: fs
  stdout :: "string list"

definition open_rb :: "fs \<Rightarrow> string \<Rightarrow> error + byte list" where
  "open_rb dir path =
     (case dir path of
        None \<Rightarrow> Inl FileNotFoundError
      | Some Directory \<Rightarrow> Inl IsADirectoryError
      | Some (File content) \<Rightarrow> Inr content)"

text \<open>Mode \<open>'w'\<close> creates the file or truncates it; the text written is ASCII.\<close>

definition str_bytes :: "string \<Rightarrow> byte list" where
  "str_bytes s = map (\<lambda>c. of_nat (of_char c)) s"

definition open_w :: "fs \<Rightarrow> string \<Rightarrow> string \<Rightarrow> error + fs" where
  "open_w dir path text =
     (case dir path of
        Some Directory \<Rightarrow> Inl IsADirectoryError
      | _ \<Rightarrow> Inr (dir(path \<mapsto> File (str_bytes text))))"

text \<open>The bytes of an ASCII file read back as text.\<close>

definition bytes_str :: "byte list \<Rightarrow> string" where
  "bytes_str bs = map (\<lambda>b. char_of (unat b)) bs"

subsection \<open>The request\<close>

definition input_path :: string where
  "input_path = ''test_file.txt''"

definition output_path :: string where
  "output_path = ''upload_request.json''"

definition file_hash :: "byte list \<Rightarrow> string" where
  "file_hash content = hexdigest (sha256 content)"

definition file_size :: "byte list \<Rightarrow> int" where
  "file_size content = int (length content)"

definition file_content_b64 :: "byte list \<Rightarrow> string" where
  "file_content_b64 content = b64encode content"

definition data :: "byte list \<Rightarrow> (string \<times> pyobj) list" where
  "data content =
     [(''filename'', PyStr ''test_file.txt''),
      (''content_hash'', PyStr (file_hash content)),
      (''size_bytes'', PyInt (file_size content)),
      (''mime_type'', PyStr ''text/plain''),
      (''encrypted_key'', PyStr ''dGVzdGtleQ==''),
      (''file_data'', PyStr (file_content_b64 content))]"

definition query :: string where
  "query = ''mutation UploadFileFromMap($input: UploadFileFromMapInput!) { uploadFileFromMap(input: $input) { id filename mime_type file { size_bytes } } }''"

definition request :: "byte list \<Rightarrow> (string \<times> pyobj) list" where
  "request content =
     [(''query'', PyStr query),
      (''variables'', PyDict [(''input'', PyDict [(''data'', PyStr (dumps (PyDict (data content))))])])]"

text \<open>
  The whole run: an exception ends it at once, with the world as it is at that moment.
  \<open>None\<close> is the normal exit.
\<close>

definition main :: "world \<Rightarrow> error option \<times> world" where
  "main w =
     (case open_rb (files w) input_path of
        Inl e \<Rightarrow> (Some e, w)
      | Inr content \<Rightarrow>
          (case open_w (files w) output_path (dumps (PyDict (request content))) of
             Inl e \<Rightarrow> (Some e, w)
           | Inr dir \<Rightarrow>
               (None, w\<lparr>files := dir, stdout := stdout w @ [''Request created successfully'']\<rparr>)))"

section \<open>Auxiliary facts\<close>

subsection \<open>Shape of the digest\<close>

lemma length_state_bytes: "length (state_bytes st) = 32"
  by (cases st rule: state_bytes.cases) simp

lemma length_sha256: "length (sha256 msg) = 32"
  by (simp only: sha256_def length_state_bytes)

lemma length_hexdigest: "length (hexdigest bs) = 2 * length bs"
  by (induction bs) (simp_all add: hexdigest_def byte_hex_def)

lemma hex_digit_lowercase: "n < 16 \<Longrightarrow> hex_digit n \<in> set hexdigits"
  unfolding hex_digit_def by (rule nth_mem) (simp add: hexdigits_def)

lemma byte_hex_lowercase: "set (byte_hex b) \<subseteq> set hexdigits"
proof -
  have "unat b < 256" using unsigned_less [of b] by simp
  then have "unat b div 16 < 16" by simp
  moreover have "unat b mod 16 < 16" by simp
  ultimately show ?thesis
    unfolding byte_hex_def by (simp add: hex_digit_lowercase)
qed

lemma hexdigest_lowercase: "set (hexdigest bs) \<subseteq> set hexdigits"
proof (induction bs)
  case Nil
  show ?case by (simp add: hexdigest_def)
next
  case (Cons b bs)
  have "hexdigest (b # bs) = byte_hex b @ hexdigest bs"
    by (simp add: hexdigest_def)
  with Cons byte_hex_lowercase [of b] show ?case
    by (simp only: set_append Un_subset_iff simp_thms)
qed

subsection \<open>Base64 decoding inverts encoding\<close>

lemma b64_table_values:
  "list_all (\<lambda>i. b64_value (b64_char i) = Some i \<and> b64_char i \<noteq> CHR ''='') [0..<64]"
  by (simp add: b64_char_def b64_table_def b64_value_def upt_rec)

lemma b64_table_entry:
  assumes "i < 64"
  shows "b64_value (b64_char i) = Some i \<and> b64_char i \<noteq> CHR ''=''"
proof -
  from assms have "i \<in> set [0..<64]" by simp
  moreover from b64_table_values
  have "\<forall>i \<in> set [0..<64]. b64_value (b64_char i) = Some i \<and> b64_char i \<noteq> CHR ''=''"
    by (simp only: list_all_iff)
  ultimately show ?thesis by blast
qed

lemma b64_value_char: "i < 64 \<Longrightarrow> b64_value (b64_char i) = Some i"
  by (simp only: b64_table_entry)

lemma b64_char_not_pad: "i < 64 \<Longrightarrow> b64_char i \<noteq> CHR ''=''"
  using b64_table_entry by blast

lemma unat_byte_less: "unat (b :: byte) < 256"
  using unsigned_less [of b] by simp

lemma sextets:
  fixes a b c :: byte
  shows "unat a div 4 < 64" "unat a mod 4 * 16 < 64" "unat a mod 4 * 16 + unat b div 16 < 64"
    "unat b mod 16 * 4 < 64" "unat b mod 16 * 4 + unat c div 64 < 64" "unat c mod 64 < 64"
  using unat_byte_less [of a] unat_byte_less [of b] unat_byte_less [of c] by simp_all

lemma regroup:
  fixes a b c :: byte
  shows "of_nat (unat a div 4 * 4 + (unat a mod 4 * 16) div 16) = a"
    "of_nat (unat a div 4 * 4 + (unat a mod 4 * 16 + unat b div 16) div 16) = a"
    "of_nat ((unat a mod 4 * 16 + unat b div 16) mod 16 * 16 + (unat b mod 16 * 4) div 4) = b"
    "of_nat ((unat a mod 4 * 16 + unat b div 16) mod 16 * 16 + (unat b mod 16 * 4 + unat c div 64) div 4) = b"
    "of_nat ((unat b mod 16 * 4 + unat c div 64) mod 4 * 64 + unat c mod 64) = c"
proof -
  have A: "unat a div 4 * 4 + (unat a mod 4 * 16) div 16 = unat a" by simp
  have B: "unat a div 4 * 4 + (unat a mod 4 * 16 + unat b div 16) div 16 = unat a"
    using unat_byte_less [of b] by simp
  have C: "(unat a mod 4 * 16 + unat b div 16) mod 16 * 16 + (unat b mod 16 * 4) div 4 = unat b"
    using unat_byte_less [of b] by simp
  have D: "(unat a mod 4 * 16 + unat b div 16) mod 16 * 16 + (unat b mod 16 * 4 + unat c div 64) div 4 = unat b"
    using unat_byte_less [of b]  unat_byte_less [of c] by simp
  have E: "(unat b mod 16 * 4 + unat c div 64) mod 4 * 64 + unat c mod 64 = unat c"
    using unat_byte_less [of c] by simp
  show "of_nat (unat a div 4 * 4 + (unat a mod 4 * 16) div 16) = a" by (subst A) simp
  show "of_nat (unat a div 4 * 4 + (unat a mod 4 * 16 + unat b div 16) div 16) = a" by (subst B) simp
  show "of_nat ((unat a mod 4 * 16 + unat b div 16) mod 16 * 16 + (unat b mod 16 * 4) div 4) = b" by (subst C) simp
  show "of_nat ((unat a mod 4 * 16 + unat b div 16) mod 16 * 16 + (unat b mod 16 * 4 + unat c div 64) div 4) = b" by (subst D) simp
  show "of_nat ((unat b mod 16 * 4 + unat c div 64) mod 4 * 64 + unat c mod 64) = c" by (subst E) simp
qed

lemma decode_one:
  assumes "i0 < 64" "i1 < 64"
  shows "b64decode [b64_char i0, b64_char i1, CHR ''='', CHR ''='']
         = Some [of_nat (i0 * 4 + i1 div 16)]"
  by (simp only: b64decode.simps b64_value_char [OF assms(1)] b64_value_char [OF assms(2)]
        simp_thms if_True Option.bind.simps)

lemma decode_two:
  assumes "i0 < 64" "i1 < 64" "i2 < 64"
  shows "b64decode [b64_char i0, b64_char i1, b64_char i2, CHR ''='']
         = Some [of_nat (i0 * 4 + i1 div 16), of_nat (i1 mod 16 * 16 + i2 div 4)]"
  by (simp only: b64decode.simps b64_value_char [OF assms(1)] b64_value_char [OF assms(2)]
        b64_value_char [OF assms(3)] b64_char_not_pad [OF assms(3)]
        simp_thms if_True if_False Option.bind.simps)

lemma decode_three:
  assumes "i0 < 64" "i1 < 64" "i2 < 64" "i3 < 64"
  shows "b64decode (b64_char i0 # b64_char i1 # b64_char i2 # b64_char i3 # rest)
         = Option.bind (b64decode rest)
             (\<lambda>bs. Some (of_nat (i0 * 4 + i1 div 16) # of_nat (i1 mod 16 * 16 + i2 div 4)
                    # of_nat (i2 mod 4 * 64 + i3) # bs))"
  by (simp only: b64decode.simps b64_value_char [OF assms(1)] b64_value_char [OF assms(2)]
        b64_value_char [OF assms(3)] b64_value_char [OF assms(4)] b64_char_not_pad [OF assms(4)]
        simp_thms if_False Option.bind.simps)

lemma b64decode_b64encode: "b64decode (b64encode bs) = Some bs"
proof (induction bs rule: b64encode.induct)
  case 1
  show ?case by simp
next
  case (2 a)
  show ?case
    by (simp only: b64encode.simps decode_one [OF sextets(1) sextets(2)] regroup)
next
  case (3 a b)
  show ?case
    by (simp only: b64encode.simps decode_two [OF sextets(1) sextets(3) sextets(4)] regroup)
next
  case (4 a b c rest)
  show ?case
    by (simp only: b64encode.simps append_Cons append_Nil
          decode_three [OF sextets(1) sextets(3) sextets(5) sextets(6)] regroup "4.IH"
          Option.bind.simps)
qed

subsection \<open>Parsing inverts \<open>json.dumps\<close>\<close>

lemma skip_ws_Cons: "\<not> is_ws c \<Longrightarrow> skip_ws (c # s) = c # s"
  by (simp add: skip_ws_def)

lemma skip_ws_append: "list_all is_ws pre \<Longrightarrow> skip_ws (pre @ s) = skip_ws s"
  by (induction pre) (simp_all add: skip_ws_def)

lemma hex_table_values: "list_all (\<lambda>d. hex_value (hex_digit d) = Some d) [0..<16]"
  by (simp add: hex_digit_def hexdigits_def hex_value_def upt_rec)

lemma hex_value_digit:
  assumes "d < 16"
  shows "hex_value (hex_digit d) = Some d"
proof -
  from assms have "d \<in> set [0..<16]" by simp
  moreover from hex_table_values
  have "\<forall>d \<in> set [0..<16]. hex_value (hex_digit d) = Some d"
    by (simp only: list_all_iff)
  ultimately show ?thesis by blast
qed

lemma of_char_less_256: "(of_char c :: nat) < 256"
  by (cases c) (simp add: of_char_Char)

lemma byte_digits:
  fixes n :: nat
  assumes "n < 256"
  shows "n div 16 < 16 \<and> n mod 16 < 16 \<and> n div 4096 mod 16 = 0 \<and> n div 256 mod 16 = 0
         \<and> n div 16 mod 16 = n div 16"
  using assms by simp

lemma hex4_of_char:
  "hex4 (of_char c) = [hex_digit 0, hex_digit 0, hex_digit (of_char c div 16), hex_digit (of_char c mod 16)]"
  using byte_digits [OF of_char_less_256 [of c]] by (simp add: hex4_def)

lemma code_point_of_char:
  "code_point (hex_digit 0) (hex_digit 0) (hex_digit (of_char c div 16)) (hex_digit (of_char c mod 16)) = Some c"
proof -
  let ?n = "of_char c :: nat"
  have b3: "?n div 16 < 16" and b4: "?n mod 16 < 16"
    using byte_digits [OF of_char_less_256 [of c]] by blast+
  have "char_of (?n div 16 * 16 + ?n mod 16) = c"
    by simp
  then show ?thesis
    using hex_value_digit [of 0] hex_value_digit [OF b3] hex_value_digit [OF b4]
    by (simp add: code_point_def)
qed

lemma parse_chars_escape:
  "parse_chars (escape_char c @ t # ts) = prepend c (parse_chars (t # ts))"
proof -
  consider (quote) "c = CHR 0x22" | (bs) "c = CHR 0x5C" | (nl) "c = CHR 0x0A" | (cr) "c = CHR 0x0D"
    | (tab) "c = CHR 0x09" | (ff) "c = CHR 0x0C" | (bsp) "c = CHR 0x08"
    | (uni) "c \<noteq> CHR 0x22" "c \<noteq> CHR 0x5C" "c \<noteq> CHR 0x0A" "c \<noteq> CHR 0x0D" "c \<noteq> CHR 0x09" "c \<noteq> CHR 0x0C" "c \<noteq> CHR 0x08"
        "(of_char c :: nat) < 32 \<or> 126 < (of_char c :: nat)"
    | (plain) "c \<noteq> CHR 0x22" "c \<noteq> CHR 0x5C" "\<not> (of_char c :: nat) < 32" "\<not> 126 < (of_char c :: nat)"
    by blast
  then show ?thesis
  proof cases
    case uni
    from uni have "escape_char c = [CHR 0x5C, CHR ''u'', hex_digit 0, hex_digit 0,
        hex_digit (of_char c div 16), hex_digit (of_char c mod 16)]"
      by (simp add: escape_char_def hex4_of_char)
    then show ?thesis
      by (simp add: code_point_of_char)
  next
    case plain
    then have "escape_char c = [c]"
      by (auto simp add: escape_char_def)
    with plain show ?thesis by simp
  qed (simp_all add: escape_char_def unescape_def)
qed

lemma parse_chars_encode:
  "parse_chars (concat (map escape_char s) @ CHR 0x22 # rest) = Some (s, rest)"
proof (induction s)
  case Nil
  show ?case by (cases rest) simp_all
next
  case (Cons c s)
  obtain t ts where t: "concat (map escape_char s) @ CHR 0x22 # rest = t # ts"
    by (cases "concat (map escape_char s) @ CHR 0x22 # rest") simp_all
  have "parse_chars (concat (map escape_char (c # s)) @ CHR 0x22 # rest)
        = parse_chars (escape_char c @ t # ts)"
    by (simp add: t)
  also have "\<dots> = prepend c (parse_chars (t # ts))"
    by (rule parse_chars_escape)
  also have "\<dots> = Some (c # s, rest)"
    using Cons.IH by (simp add: t prepend_def)
  finally show ?case .
qed

lemma of_char_digit_char: "d < 10 \<Longrightarrow> (of_char (digit_char d) :: nat) = 48 + d"
  by (simp add: digit_char_def)

lemma digit_char_props:
  assumes "d < 10"
  shows "is_digit (digit_char d)" "digit_value (digit_char d) = d"
    "digit_char d \<noteq> CHR ''-''" "digit_char d = CHR ''0'' \<Longrightarrow> d = 0"
proof -
  note oc = of_char_digit_char [OF assms]
  show "is_digit (digit_char d)" using assms by (simp add: is_digit_def oc)
  show "digit_value (digit_char d) = d" by (simp add: digit_value_def oc)
  show "digit_char d \<noteq> CHR ''-''"
  proof
    assume "digit_char d = CHR ''-''"
    then have "(of_char (digit_char d) :: nat) = of_char (CHR ''-'')" by simp
    then show False by (simp add: oc)
  qed
  show "d = 0" if "digit_char d = CHR ''0''"
  proof -
    from that have "(of_char (digit_char d) :: nat) = of_char (CHR ''0'')" by simp
    then show ?thesis by (simp add: oc)
  qed
qed

lemma nat_repr_not_Nil: "nat_repr n \<noteq> []"
  by (subst nat_repr.simps) simp

lemma nat_repr_digits: "list_all is_digit (nat_repr n)"
proof (induction n rule: nat_repr.induct)
  case (1 n)
  show ?case
  proof (cases "n < 10")
    case True
    then show ?thesis by (subst nat_repr.simps) (simp add: digit_char_props)
  next
    case False
    with 1 show ?thesis by (subst nat_repr.simps) (simp add: digit_char_props)
  qed
qed

lemma nat_repr_value: "foldl (\<lambda>a d. 10 * a + digit_value d) 0 (nat_repr n) = n"
proof (induction n rule: nat_repr.induct)
  case (1 n)
  show ?case
  proof (cases "n < 10")
    case True
    then show ?thesis by (subst nat_repr.simps) (simp add: digit_char_props)
  next
    case False
    with 1 show ?thesis by (subst nat_repr.simps) (simp add: digit_char_props)
  qed
qed

lemma nat_repr_leading_zero: "hd (nat_repr n) = CHR ''0'' \<Longrightarrow> n = 0"
proof (induction n rule: nat_repr.induct)
  case (1 n)
  show ?case
  proof (cases "n < 10")
    case True
    with "1.prems" show ?thesis
      by (subst (asm) nat_repr.simps) (simp add: digit_char_props)
  next
    case False
    with "1.prems" have "hd (nat_repr (n div 10)) = CHR ''0''"
      by (subst (asm) nat_repr.simps) (simp add: nat_repr_not_Nil)
    with False "1.IH" have "n div 10 = 0" by simp
    with False show ?thesis by simp
  qed
qed

lemma nat_repr_zero: "nat_repr 0 = [digit_char 0]"
  by (subst nat_repr.simps) simp

lemma parse_nat_repr:
  assumes "int_end rest"
  shows "parse_nat (nat_repr n @ rest) = Some (n, rest)"
proof -
  have stop: "takeWhile is_digit rest = []" "dropWhile is_digit rest = rest"
    using assms by (cases rest; simp add: int_end_def)+
  have all: "\<And>x. x \<in> set (nat_repr n) \<Longrightarrow> is_digit x"
    using nat_repr_digits [of n] by (simp add: list_all_iff)
  have tw: "takeWhile is_digit (nat_repr n @ rest) = nat_repr n"
    using all by (simp add: takeWhile_append2 stop)
  have dw: "dropWhile is_digit (nat_repr n @ rest) = rest"
    using all by (simp add: dropWhile_append2 stop)
  have lead: "\<not> (hd (nat_repr n) = CHR ''0'' \<and> tl (nat_repr n) \<noteq> [])"
    using nat_repr_leading_zero [of n] by (auto simp add: nat_repr_zero)
  have float: "\<not> (rest \<noteq> [] \<and> hd rest \<in> {CHR ''.'', CHR ''e'', CHR ''E''})"
    using assms by (cases rest) (simp_all add: int_end_def)
  show ?thesis
    unfolding parse_nat_def Let_def tw dw
    using lead float by (simp add: nat_repr_not_Nil nat_repr_value)
qed

lemma nat_repr_Cons: "\<exists>d ds. nat_repr n = d # ds \<and> is_digit d \<and> d \<noteq> CHR ''-''"
proof -
  obtain d ds where r: "nat_repr n = d # ds"
    using nat_repr_not_Nil [of n] by (cases "nat_repr n") simp_all
  with nat_repr_digits [of n] have "is_digit d" by simp
  moreover from this have "d \<noteq> CHR ''-''" by (auto simp add: is_digit_def)
  ultimately show ?thesis using r by blast
qed

lemma parse_int_repr:
  assumes "int_end rest"
  shows "parse_int (int_repr i @ rest) = Some (i, rest)"
proof (cases "i < 0")
  case True
  then show ?thesis
    by (simp add: parse_int_def int_repr_def parse_nat_repr [OF assms])
next
  case False
  obtain d ds where r: "nat_repr (nat i) = d # ds" and d: "d \<noteq> CHR ''-''"
    using nat_repr_Cons [of "nat i"] by blast
  have "parse_int (nat_repr (nat i) @ rest) = map_option (\<lambda>(n, rest). (int n, rest)) (parse_nat (nat_repr (nat i) @ rest))"
    by (simp add: parse_int_def r d)
  with False show ?thesis
    by (simp add: int_repr_def parse_nat_repr [OF assms])
qed

lemma expect_found:
  "list_all is_ws pre \<Longrightarrow> \<not> is_ws c \<Longrightarrow> expect c (pre @ c # s) = Some s"
  by (simp add: expect_def skip_ws_append skip_ws_Cons)

lemma expect_other:
  "\<not> is_ws d \<Longrightarrow> d \<noteq> c \<Longrightarrow> expect c (d # s) = None"
  by (simp add: expect_def skip_ws_Cons)

lemma not_ws: "\<not> is_ws (CHR 0x22)" "\<not> is_ws (CHR ''{'')" "\<not> is_ws (CHR ''}'')"
  "\<not> is_ws (CHR '':'')" "\<not> is_ws (CHR '','')" "\<not> is_ws (CHR ''-'')"
  by (simp_all add: is_ws_def)

lemma digit_not_ws: "is_digit c \<Longrightarrow> \<not> is_ws c"
  by (auto simp add: is_digit_def is_ws_def)

lemma digit_not_delim: "is_digit c \<Longrightarrow> c \<noteq> CHR 0x22 \<and> c \<noteq> CHR ''{''"
  by (auto simp add: is_digit_def)

lemma int_end_delims: "int_end (CHR ''}'' # s)" "int_end (CHR '','' # s)" "int_end []"
  by (simp_all add: int_end_def is_digit_def)

lemma ws1: "list_all is_ws [CHR '' '']"
  by (simp add: is_ws_def)

lemma join_items_Cons: "ys \<noteq> [] \<Longrightarrow> join_items (x # ys) = x @ '', '' @ join_items ys"
  by (cases ys) simp_all

lemma parse_members_step:
  assumes pre: "list_all is_ws pre"
    and val: "parse_value (CHR '' '' # dumps v @ tail) = Some (v, tail)"
  shows "parse_members (pre @ encode_basestring_ascii k @ '': '' @ dumps v @ tail) =
     (case skip_ws tail of
        [] \<Rightarrow> None
      | d # s5 \<Rightarrow>
          if d = CHR ''}'' then Some ([(k, v)], s5)
          else if d = CHR '','' \<and> length s5 < length (pre @ encode_basestring_ascii k @ '': '' @ dumps v @ tail)
            then map_option (\<lambda>(kvs, rest). ((k, v) # kvs, rest)) (parse_members s5)
          else None)"
proof -
  let ?s = "pre @ encode_basestring_ascii k @ '': '' @ dumps v @ tail"
  let ?s3 = "CHR '' '' # dumps v @ tail"
  let ?s2 = "CHR '':'' # ?s3"
  let ?s1 = "concat (map escape_char k) @ CHR 0x22 # ?s2"
  have s: "?s = pre @ CHR 0x22 # ?s1"
    by (simp add: encode_basestring_ascii_def)
  have e1: "expect (CHR 0x22) ?s = Some ?s1"
    unfolding s by (rule expect_found [OF pre not_ws(1)])
  have p1: "parse_chars ?s1 = Some (k, ?s2)"
    by (rule parse_chars_encode)
  have e2: "expect (CHR '':'') ?s2 = Some ?s3"
    using expect_found [of "[]" "CHR '':''" ?s3] by (simp add: not_ws)
  have g: "length ?s3 < length ?s"
    by (simp add: encode_basestring_ascii_def)
  show ?thesis
    by (subst parse_members.simps) (simp only: e1 p1 e2 g val Option.bind.simps prod.case if_True)
qed

lemma parse_members_items:
  assumes IH: "\<And>k v pre rest. (k, v) \<in> set kvs \<Longrightarrow> list_all is_ws pre \<Longrightarrow> int_end rest
                 \<Longrightarrow> parse_value (pre @ dumps v @ rest) = Some (v, rest)"
    and ne: "kvs \<noteq> []"
    and pre: "list_all is_ws pre"
  shows "parse_members (pre @ join_items (map item kvs) @ CHR ''}'' # rest) = Some (kvs, rest)"
  using ne IH pre
proof (induction kvs arbitrary: pre rule: list_nonempty_induct)
  case (single kv)
  obtain k v where kv: "kv = (k, v)" by (cases kv)
  let ?tail = "CHR ''}'' # rest"
  have "parse_value ([CHR '' ''] @ dumps v @ ?tail) = Some (v, ?tail)"
    by (rule single.prems(1) [of k]) (simp_all add: kv is_ws_def int_end_delims)
  then have val: "parse_value (CHR '' '' # dumps v @ ?tail) = Some (v, ?tail)"
    by simp
  have "parse_members (pre @ encode_basestring_ascii k @ '': '' @ dumps v @ ?tail) = Some ([(k, v)], rest)"
    by (subst parse_members_step [OF single.prems(2) val]) (simp add: skip_ws_Cons not_ws)
  then show ?case
    by (simp add: kv item_def)
next
  case (cons kv kvs)
  obtain k v where kv: "kv = (k, v)" by (cases kv)
  let ?more = "CHR '' '' # join_items (map item kvs) @ CHR ''}'' # rest"
  let ?tail = "CHR '','' # ?more"
  have "parse_value ([CHR '' ''] @ dumps v @ ?tail) = Some (v, ?tail)"
    by (rule cons.prems(1) [of k]) (simp_all add: kv is_ws_def int_end_delims)
  then have val: "parse_value (CHR '' '' # dumps v @ ?tail) = Some (v, ?tail)"
    by simp
  have sub: "parse_value (pre' @ dumps v' @ rest') = Some (v', rest')"
    if "(k', v') \<in> set kvs" "list_all is_ws pre'" "int_end rest'" for k' v' pre' rest'
    using that cons.prems(1) [of k' v' pre' rest'] by simp
  have "parse_members ([CHR '' ''] @ join_items (map item kvs) @ CHR ''}'' # rest) = Some (kvs, rest)"
  proof (rule cons.IH)
    show "list_all is_ws [CHR '' '']" by (rule ws1)
  qed (rule sub)
  then have more: "parse_members ?more = Some (kvs, rest)"
    by simp
  have "parse_members (pre @ encode_basestring_ascii k @ '': '' @ dumps v @ ?tail) = Some ((k, v) # kvs, rest)"
    by (subst parse_members_step [OF cons.prems(2) val]) (simp add: skip_ws_Cons not_ws more)
  moreover have "join_items (map item (kv # kvs)) = item kv @ '', '' @ join_items (map item kvs)"
    using cons.hyps by (simp add: join_items_Cons)
  ultimately show ?case
    by (simp add: kv item_def)
qed

lemma dumps_PyDict: "dumps (PyDict kvs) = CHR ''{'' # join_items (map item kvs) @ ''}''"
  by (simp add: item_def)

lemma join_items_starts_with_quote:
  assumes "kvs \<noteq> []"
  shows "\<exists>t. join_items (map item kvs) = CHR 0x22 # t"
proof -
  from assms obtain kv kvs' where c: "kvs = kv # kvs'" by (cases kvs) simp_all
  obtain k v where kv: "kv = (k, v)" by (cases kv)
  show ?thesis
    by (cases kvs') (simp_all add: c kv item_def encode_basestring_ascii_def)
qed

lemma parse_value_object:
  "parse_value s =
     (case skip_ws s of
        [] \<Rightarrow> None
      | c # cs \<Rightarrow>
          if c = CHR 0x22 then map_option (\<lambda>(str, rest). (PyStr str, rest)) (parse_chars cs)
          else if c = CHR ''{'' then
            (case expect (CHR ''}'') cs of
               Some rest \<Rightarrow> Some (PyDict [], rest)
             | None \<Rightarrow> map_option (\<lambda>(kvs, rest). (PyDict kvs, rest)) (parse_members cs))
          else map_option (\<lambda>(i, rest). (PyInt i, rest)) (parse_int (c # cs)))"
proof (cases "skip_ws s")
  case Nil
  then show ?thesis by (subst parse_value.simps) simp
next
  case (Cons c cs)
  have "length (skip_ws s) \<le> length s"
    unfolding skip_ws_def by (rule length_dropWhile_le)
  with Cons have "length cs < length s" by simp
  with Cons show ?thesis by (subst parse_value.simps) simp
qed

lemma parse_value_dumps:
  "list_all is_ws pre \<Longrightarrow> int_end rest \<Longrightarrow> parse_value (pre @ dumps v @ rest) = Some (v, rest)"
proof (induction v arbitrary: pre rest)
  case (PyStr s)
  have "skip_ws (pre @ dumps (PyStr s) @ rest) = CHR 0x22 # concat (map escape_char s) @ CHR 0x22 # rest"
    using PyStr.prems(1) by (simp add: skip_ws_append skip_ws_Cons not_ws encode_basestring_ascii_def)
  then show ?case
    by (subst parse_value.simps) (simp add: parse_chars_encode)
next
  case (PyInt i)
  obtain c cs where r: "int_repr i = c # cs" and c: "c = CHR ''-'' \<or> is_digit c"
    using nat_repr_Cons [of "nat i"] nat_repr_Cons [of "nat (- i)"]
    by (cases "i < 0") (auto simp add: int_repr_def)
  from c have nws: "\<not> is_ws c" and nd: "c \<noteq> CHR 0x22" "c \<noteq> CHR ''{''"
    using digit_not_ws digit_not_delim not_ws by auto
  have "skip_ws (pre @ dumps (PyInt i) @ rest) = c # cs @ rest"
    using PyInt.prems(1) nws by (simp add: skip_ws_append skip_ws_Cons r)
  moreover have "parse_int (c # cs @ rest) = Some (i, rest)"
    using parse_int_repr [OF PyInt.prems(2), of i] by (simp add: r)
  ultimately show ?case
    by (subst parse_value.simps) (simp add: nd)
next
  case (PyDict kvs)
  let ?cs = "join_items (map item kvs) @ CHR ''}'' # rest"
  have sk: "skip_ws (pre @ dumps (PyDict kvs) @ rest) = CHR ''{'' # ?cs"
    using PyDict.prems(1) by (simp add: dumps_PyDict skip_ws_append skip_ws_Cons not_ws del: dumps.simps)
  show ?case
  proof (cases "kvs = []")
    case True
    have "expect (CHR ''}'') (CHR ''}'' # rest) = Some rest"
      using expect_found [of "[]" "CHR ''}''" rest] by (simp add: not_ws)
    with sk True show ?thesis
      by (subst parse_value.simps) simp
  next
    case False
    obtain t where t: "join_items (map item kvs) = CHR 0x22 # t"
      using join_items_starts_with_quote [OF False] by blast
    have ex: "expect (CHR ''}'') ?cs = None"
      by (simp add: t expect_other not_ws)
    have "parse_members ([] @ ?cs) = Some (kvs, rest)"
    proof (rule parse_members_items [OF _ False])
      fix k v pre' rest'
      assume "(k, v) \<in> set kvs" "list_all is_ws pre'" "int_end rest'"
      then show "parse_value (pre' @ dumps v @ rest') = Some (v, rest')"
        using PyDict.IH [of "(k, v)" v pre' rest'] by simp
    qed simp
    then have pm: "parse_members ?cs = Some (kvs, rest)" by simp
    show ?thesis
      by (subst parse_value_object) (simp add: sk ex pm del: dumps.simps)
  qed
qed

lemma loads_dumps: "loads (dumps v) = Some v"
  using parse_value_dumps [of "[]" "[]" v] by (simp add: loads_def int_end_delims skip_ws_def)

subsection \<open>Text written to a file reads back unchanged\<close>

lemma bytes_str_str_bytes: "bytes_str (str_bytes s) = s"
proof -
  have "char_of (unat (of_nat (of_char c) :: byte)) = c" for c
    by (simp add: unat_of_nat)
  then show ?thesis
    by (simp add: bytes_str_def str_bytes_def comp_def)
qed

subsection \<open>The two paths\<close>

lemma paths_differ: "input_path \<noteq> output_path"
  by (simp add: input_path_def output_path_def)

lemma main_success:
  assumes "fst (main w) = None"
  obtains content where
    "files w input_path = Some (File content)"
    "files w output_path \<noteq> Some Directory"
    "main w = (None, w\<lparr>files := (files w)(output_path \<mapsto> File (str_bytes (dumps (PyDict (request content))))),
                        stdout := stdout w @ [''Request created successfully'']\<rparr>)"
  using assms
  by (auto simp: main_def open_rb_def open_w_def split: option.splits node.splits sum.splits)

lemma main_on_file:
  assumes "files w input_path = Some (File content)" and "files w output_path \<noteq> Some Directory"
  shows "main w = (None, w\<lparr>files := (files w)(output_path \<mapsto> File (str_bytes (dumps (PyDict (request content))))),
                        stdout := stdout w @ [''Request created successfully'']\<rparr>)"
  using assms
  by (auto simp: main_def open_rb_def open_w_def split: option.splits node.splits sum.splits)

section \<open>Properties\<close>

text \<open>
  C2: for every content of the input file, the \<open>size_bytes\<close> entry of the metadata is
  the number of bytes of the content, which is not negative.
\<close>

theorem size_bytes_exact:
  "map_of (data content) ''size_bytes'' = Some (PyInt (int (length content)))
   \<and> 0 \<le> file_size content"
  by (simp add: data_def file_size_def)

text \<open>
  C9: whatever the content of the input file, the \<open>mime_type\<close> entry is the constant
  \<open>text/plain\<close> and the \<open>encrypted_key\<close> entry is the constant \<open>dGVzdGtleQ==\<close>.
\<close>

theorem mime_type_and_key_constant:
  "map_of (data content) ''mime_type'' = Some (PyStr ''text/plain'')
   \<and> map_of (data content) ''encrypted_key'' = Some (PyStr ''dGVzdGtleQ=='')"
  by (simp add: data_def)

text \<open>
  C10: whatever the content of the input file, the \<open>filename\<close> entry is the constant
  \<open>test_file.txt\<close>, the very path the script reads.
\<close>

theorem filename_constant:
  "map_of (data content) ''filename'' = Some (PyStr ''test_file.txt'')
   \<and> map_of (data content) ''filename'' = Some (PyStr input_path)"
  by (simp add: data_def input_path_def)

text \<open>
  C1: for every content of the input file, the \<open>content_hash\<close> entry of the metadata
  is the SHA-256 digest of the content written in hexadecimal: 64 characters, each a
  digit or a lowercase letter from \<open>a\<close> to \<open>f\<close>.
\<close>

theorem content_hash_sha256_hex:
  "map_of (data content) ''content_hash'' = Some (PyStr (hexdigest (sha256 content)))
   \<and> length (hexdigest (sha256 content)) = 64
   \<and> set (hexdigest (sha256 content)) \<subseteq> set ''0123456789abcdef''"
proof -
  have "map_of (data content) ''content_hash'' = Some (PyStr (hexdigest (sha256 content)))"
    by (simp add: data_def file_hash_def)
  moreover have "length (hexdigest (sha256 content)) = 64"
    by (simp add: length_hexdigest length_sha256)
  moreover have "set (hexdigest (sha256 content)) \<subseteq> set ''0123456789abcdef''"
    using hexdigest_lowercase [of "sha256 content"] by (simp only: hexdigits_def)
  ultimately show ?thesis by blast
qed

text \<open>
  C5: when the input file does not exist, the run ends with the file-not-found error
  and the world is left as it was: no file is created and none is modified, in
  particular not the output file.
\<close>

theorem missing_input_aborts:
  "files w input_path = None \<Longrightarrow> main w = (Some FileNotFoundError, w)"
  by (simp add: main_def open_rb_def)

theorem missing_input_aborts_witness:
  "files \<lparr>files = Map.empty, stdout = []\<rparr> input_path = None
   \<and> main \<lparr>files = Map.empty, stdout = []\<rparr> = (Some FileNotFoundError, \<lparr>files = Map.empty, stdout = []\<rparr>)"
  using missing_input_aborts [of "\<lparr>files = Map.empty, stdout = []\<rparr>"] by simp

text \<open>
  C6: a run that succeeds writes an output file that is a function of the bytes of the
  input file alone, and a second run on the resulting world succeeds and leaves every
  file, the output file included, byte for byte as the first run left it.
\<close>

theorem rerun_identical:
  assumes "fst (main w) = None"
  shows "\<exists>content. files w input_path = Some (File content)
           \<and> files (snd (main w)) output_path = Some (File (str_bytes (dumps (PyDict (request content)))))
           \<and> fst (main (snd (main w))) = None
           \<and> files (snd (main (snd (main w)))) = files (snd (main w))"
proof -
  from assms obtain content where
    inp: "files w input_path = Some (File content)" and
    out: "files w output_path \<noteq> Some Directory" and
    run: "main w = (None, w\<lparr>files := (files w)(output_path \<mapsto> File (str_bytes (dumps (PyDict (request content))))),
                        stdout := stdout w @ [''Request created successfully'']\<rparr>)"
    by (rule main_success)
  let ?w' = "snd (main w)"
  have inp': "files ?w' input_path = Some (File content)"
    using inp paths_differ by (simp add: run)
  have out': "files ?w' output_path \<noteq> Some Directory"
    by (simp add: run)
  have run': "main ?w' = (None, ?w'\<lparr>files := (files ?w')(output_path \<mapsto> File (str_bytes (dumps (PyDict (request content))))),
                        stdout := stdout ?w' @ [''Request created successfully'']\<rparr>)"
    using inp' out' by (rule main_on_file)
  have "files ?w' output_path = Some (File (str_bytes (dumps (PyDict (request content)))))"
    by (simp add: run)
  moreover have "fst (main ?w') = None"
    by (simp add: run')
  moreover have "files (snd (main ?w')) = files ?w'"
    by (simp add: run') (simp add: run)
  ultimately show ?thesis using inp by blast
qed

theorem rerun_identical_witness:
  "fst (main \<lparr>files = [input_path \<mapsto> File []], stdout = []\<rparr>) = None
   \<and> (\<exists>content. files \<lparr>files = [input_path \<mapsto> File []], stdout = []\<rparr> input_path = Some (File content)
           \<and> files (snd (main \<lparr>files = [input_path \<mapsto> File []], stdout = []\<rparr>)) output_path
               = Some (File (str_bytes (dumps (PyDict (request content)))))
           \<and> fst (main (snd (main \<lparr>files = [input_path \<mapsto> File []], stdout = []\<rparr>))) = None
           \<and> files (snd (main (snd (main \<lparr>files = [input_path \<mapsto> File []], stdout = []\<rparr>))))
               = files (snd (main \<lparr>files = [input_path \<mapsto> File []], stdout = []\<rparr>)))"
proof -
  have h: "fst (main \<lparr>files = [input_path \<mapsto> File []], stdout = []\<rparr>) = None"
    using paths_differ by (simp add: main_def open_rb_def open_w_def)
  show ?thesis using h rerun_identical [OF h] by blast
qed

text \<open>
  C3: for every content of the input file, decoding the \<open>file_data\<close> entry from
  base64 gives back the content, so the \<open>size_bytes\<close> entry is the number of bytes of
  the decoded \<open>file_data\<close> and the \<open>content_hash\<close> entry is the SHA-256 digest of
  the decoded \<open>file_data\<close>.
\<close>

theorem file_data_round_trip:
  "\<exists>fd decoded.
      map_of (data content) ''file_data'' = Some (PyStr fd)
    \<and> b64decode fd = Some decoded
    \<and> decoded = content
    \<and> map_of (data content) ''size_bytes'' = Some (PyInt (int (length decoded)))
    \<and> map_of (data content) ''content_hash'' = Some (PyStr (hexdigest (sha256 decoded)))"
proof -
  have "map_of (data content) ''file_data'' = Some (PyStr (b64encode content))"
    by (simp add: data_def file_content_b64_def)
  moreover have "b64decode (b64encode content) = Some content"
    by (rule b64decode_b64encode)
  moreover have "map_of (data content) ''size_bytes'' = Some (PyInt (int (length content)))"
    by (simp add: data_def file_size_def)
  moreover have "map_of (data content) ''content_hash'' = Some (PyStr (hexdigest (sha256 content)))"
    by (simp add: data_def file_hash_def)
  ultimately show ?thesis by blast
qed

text \<open>
  C7: for the input file holding the five bytes of \<open>hello\<close>, \<open>size_bytes\<close> is 5,
  \<open>content_hash\<close> is the digest below and \<open>file_data\<close> is \<open>aGVsbG8=\<close>.
\<close>

theorem hello_metadata:
  "map_of (data [0x68, 0x65, 0x6c, 0x6c, 0x6f]) ''size_bytes'' = Some (PyInt 5)
   \<and> map_of (data [0x68, 0x65, 0x6c, 0x6c, 0x6f]) ''content_hash''
       = Some (PyStr ''2cf24dba5fb0a30e26e83b2ac5b9e29e1b161e5c1fa7425e73043362938b9824'')
   \<and> map_of (data [0x68, 0x65, 0x6c, 0x6c, 0x6f]) ''file_data'' = Some (PyStr ''aGVsbG8='')"
proof -
  have "hexdigest (sha256 [0x68, 0x65, 0x6c, 0x6c, 0x6f])
        = ''2cf24dba5fb0a30e26e83b2ac5b9e29e1b161e5c1fa7425e73043362938b9824''"
    by code_simp
  moreover have "b64encode [0x68, 0x65, 0x6c, 0x6c, 0x6f] = ''aGVsbG8=''"
    by (simp add: b64_char_def b64_table_def)
  ultimately show ?thesis
    by (simp add: data_def file_hash_def file_size_def file_content_b64_def)
qed

text \<open>
  C8: for the empty input file, \<open>size_bytes\<close> is 0, \<open>content_hash\<close> is the digest of
  the empty byte string and \<open>file_data\<close> is the empty string.
\<close>

theorem empty_metadata:
  "map_of (data []) ''size_bytes'' = Some (PyInt 0)
   \<and> map_of (data []) ''content_hash''
       = Some (PyStr ''e3b0c44298fc1c149afbf4c8996fb92427ae41e4649b934ca495991b7852b855'')
   \<and> map_of (data []) ''file_data'' = Some (PyStr [])"
proof -
  have "hexdigest (sha256 []) = ''e3b0c44298fc1c149afbf4c8996fb92427ae41e4649b934ca495991b7852b855''"
    by code_simp
  then show ?thesis
    by (simp add: data_def file_hash_def file_size_def file_content_b64_def)
qed

text \<open>
  C4: after a run that succeeds, the output file holds a JSON text whose value is an
  object with exactly the two keys \<open>query\<close>, a string, and \<open>variables\<close>, an object
  holding \<open>input\<close>, an object holding \<open>data\<close>, a string; that string is again a JSON
  text, of an object with exactly the six keys of the metadata.
\<close>

theorem output_document_well_formed:
  assumes "fst (main w) = None"
  shows "\<exists>out q d inner.
           files (snd (main w)) output_path = Some (File out)
         \<and> loads (bytes_str out)
             = Some (PyDict [(''query'', PyStr q),
                             (''variables'', PyDict [(''input'', PyDict [(''data'', PyStr d)])])])
         \<and> loads d = Some (PyDict inner)
         \<and> map fst inner = [''filename'', ''content_hash'', ''size_bytes'', ''mime_type'',
                             ''encrypted_key'', ''file_data'']"
proof -
  from assms obtain content where
    run: "main w = (None, w\<lparr>files := (files w)(output_path \<mapsto> File (str_bytes (dumps (PyDict (request content))))),
                        stdout := stdout w @ [''Request created successfully'']\<rparr>)"
    by (rule main_success)
  let ?out = "str_bytes (dumps (PyDict (request content)))"
  let ?d = "dumps (PyDict (data content))"
  have "files (snd (main w)) output_path = Some (File ?out)"
    by (simp add: run)
  moreover have "loads (bytes_str ?out) = Some (PyDict (request content))"
    by (simp only: bytes_str_str_bytes loads_dumps)
  moreover have "request content = [(''query'', PyStr query),
      (''variables'', PyDict [(''input'', PyDict [(''data'', PyStr ?d)])])]"
    by (simp only: request_def)
  moreover have "loads ?d = Some (PyDict (data content))"
    by (rule loads_dumps)
  moreover have "map fst (data content) = [''filename'', ''content_hash'', ''size_bytes'', ''mime_type'',
                             ''encrypted_key'', ''file_data'']"
    by (simp add: data_def)
  ultimately show ?thesis by metis
qed

theorem output_document_well_formed_witness:
  "fst (main \<lparr>files = [input_path \<mapsto> File [0x68, 0x69]], stdout = []\<rparr>) = None
   \<and> (\<exists>out q d inner.
           files (snd (main \<lparr>files = [input_path \<mapsto> File [0x68, 0x69]], stdout = []\<rparr>)) output_path
             = Some (File out)
         \<and> loads (bytes_str out)
             = Some (PyDict [(''query'', PyStr q),
                             (''variables'', PyDict [(''input'', PyDict [(''data'', PyStr d)])])])
         \<and> loads d = Some (PyDict inner)
         \<and> map fst inner = [''filename'', ''content_hash'', ''size_bytes'', ''mime_type'',
                             ''encrypted_key'', ''file_data''])"
proof -
  have h: "fst (main \<lparr>files = [input_path \<mapsto> File [0x68, 0x69]], stdout = []\<rparr>) = None"
    using paths_differ by (simp add: main_def open_rb_def open_w_def)
  show ?thesis using h output_document_well_formed [OF h] by blast
qed

end
